theory Spec2Isabelle
  imports Main "HOL-Library.Word"
begin

section \<open>Shared types\<close>

text \<open>
  C++ \<open>unsigned int\<close> is a 32-bit word, \<open>uint64_t\<close> and \<open>size_t\<close> are 64-bit words,
  \<open>char\<close> is a byte. Undefined behaviour and failed assertions of the source are
  error values of the model.
\<close>

type_synonym byte = "8 word"
type_synonym size_t = "64 word"

datatype error = DivisionByZero | OutOfBounds | NotImplemented

section \<open>EnforceArchaeopteryxABIPass: the alignment helper\<close>

text \<open>
  \<^verbatim>\<open>
  static unsigned int align(unsigned int address, unsigned int alignment)
  {
      unsigned int remainder = address % alignment;
      unsigned int offset = remainder == 0 ? 0 : alignment - remainder;
      return address + offset;
  }
  \<close>
  All three operations are on \<open>unsigned int\<close>: the final addition wraps around at
  \<open>2 ^ 32\<close>. The remainder by zero is undefined in C++ and is an error here.
\<close>

definition align :: "32 word \<Rightarrow> 32 word \<Rightarrow> error + 32 word" where
  "align address alignment =
     (if alignment = 0 then Inl DivisionByZero
      else
        let remainder = address mod alignment;
            offset = (if remainder = 0 then 0 else alignment - remainder)
        in Inr (address + offset))"

text \<open>The same rounding on unbounded naturals, used to state what \<open>align\<close> computes.\<close>

definition align_nat :: "nat \<Rightarrow> nat \<Rightarrow> nat" where
  "align_nat A L = A + (if A mod L = 0 then 0 else L - A mod L)"

section \<open>BinaryReader: splitting a function into basic blocks\<close>

text \<open>
  \<open>BinaryReader::_getBasicBlocksInFunction\<close> reads three things of an instruction
  container: the opcode, and for a branch the mode and the immediate value of its target
  operand. The operand modes are the cases of the switch in \<open>_translateOperand\<close>.
  The types \<open>InstructionContainer\<close>, \<open>SymbolTableEntry\<close> and
  \<open>BasicBlockDescriptor\<close> are declared in headers outside the sources at hand; the
  records below hold the fields the function uses.
\<close>

datatype Opcode = Bra | OtherOpcode nat

datatype OperandMode = Predicate | Register | Immediate | Indirect | Symbol | InvalidOperand

record InstructionContainer =
  opcode :: Opcode
  target_mode :: OperandMode
  target_uint :: "64 word"

record SymbolTableEntry =
  sym_offset :: "64 word"
  sym_size :: "64 word"

record BasicBlockDescriptor =
  bb_name :: string
  bb_begin :: "64 word"
  bb_end :: "64 word"

text \<open>The decimal digits that \<open>name << blocks.size()\<close> appends to \<open>"BB_"\<close>.\<close>

fun string_of_nat :: "nat \<Rightarrow> string" where
  "string_of_nat n =
     (if n < 10 then [char_of (48 + n)]
      else string_of_nat (n div 10) @ [char_of (48 + n mod 10)])"

declare string_of_nat.simps [simp del]

text \<open>
  The first loop, \<open>for(uint64_t i = begin; i != end; ++i)\<close>, collects the immediate
  targets of the branches. The loop variable is a 64-bit word compared with \<open>!=\<close>, so the
  loop ends after at most \<open>2 ^ 64\<close> steps whatever \<open>begin\<close> and \<open>end\<close> are; reading
  \<open>_instructions[i]\<close> past the end of the vector is an error, and so is the
  \<open>assertM(false, "not implemented")\<close> of a branch whose target is not an immediate.
\<close>

function collectTargets ::
  "InstructionContainer list \<Rightarrow> 64 word \<Rightarrow> 64 word \<Rightarrow> 64 word set \<Rightarrow> error + 64 word set" where
  "collectTargets instructions e i targets =
     (if i = e then Inr targets
      else if length instructions \<le> unat i then Inl OutOfBounds
      else
        let instruction = instructions ! unat i in
        if opcode instruction = Bra then
          (if target_mode instruction = Immediate
           then collectTargets instructions e (i + 1) (insert (target_uint instruction) targets)
           else Inl NotImplemented)
        else collectTargets instructions e (i + 1) targets)"
  by pat_completeness auto
termination
  by (relation "measure (\<lambda>(instructions, e, i, targets). unat (e - i))")
     (auto simp: unat_minus_one unat_gt_0 diff_diff_eq [symmetric] simp del: diff_diff_eq)

declare collectTargets.simps [simp del]

text \<open>
  The second loop carries the open descriptor \<open>block\<close> and the vector \<open>blocks\<close>.
  \<open>sz\<close> is \<open>sizeof(InstructionContainer)\<close>; \<open>dflt\<close> is the value the two-argument
  constructor call \<open>BasicBlockDescriptor(name, begin)\<close> gives to the field \<open>end\<close>
  (a default argument declared in the header), which is overwritten before a descriptor
  is pushed.
\<close>

function splitBlocks ::
  "InstructionContainer list \<Rightarrow> 64 word set \<Rightarrow> 64 word \<Rightarrow> 64 word \<Rightarrow> 64 word \<Rightarrow> 64 word
     \<Rightarrow> BasicBlockDescriptor \<Rightarrow> BasicBlockDescriptor list
     \<Rightarrow> error + (BasicBlockDescriptor \<times> BasicBlockDescriptor list)" where
  "splitBlocks instructions targets sz dflt e i block blocks =
     (if i = e then Inr (block, blocks)
      else if length instructions \<le> unat i then Inl OutOfBounds
      else
        let instruction = instructions ! unat i;
            isTarget = (i * sz \<in> targets);
            isTerminator = (isTarget \<or> opcode instruction = Bra);
            blockEnd = (if isTarget then i else if opcode instruction = Bra then i + 1 else i)
        in
        if isTerminator then
          let blocks' = blocks @ [block\<lparr>bb_end := blockEnd\<rparr>] in
          splitBlocks instructions targets sz dflt e (i + 1)
            \<lparr>bb_name = ''BB_'' @ string_of_nat (length blocks'), bb_begin = blockEnd, bb_end = dflt\<rparr>
            blocks'
        else splitBlocks instructions targets sz dflt e (i + 1) block blocks)"
  by pat_completeness auto
termination
  by (relation "measure (\<lambda>(instructions, targets, sz, dflt, e, i, block, blocks). unat (e - i))")
     (auto simp: unat_minus_one unat_gt_0 diff_diff_eq [symmetric] simp del: diff_diff_eq)

declare splitBlocks.simps [simp del]

text \<open>
  \<^verbatim>\<open>
  uint64_t begin = (symbol.offset - _header.codeOffset) / sizeof(InstructionContainer);
  uint64_t end = begin + symbol.size / sizeof(InstructionContainer);
  \<close>
\<close>

definition function_begin :: "64 word \<Rightarrow> 64 word \<Rightarrow> SymbolTableEntry \<Rightarrow> 64 word" where
  "function_begin codeOffset sz symbol = (sym_offset symbol - codeOffset) div sz"

definition function_end :: "64 word \<Rightarrow> 64 word \<Rightarrow> SymbolTableEntry \<Rightarrow> 64 word" where
  "function_end codeOffset sz symbol =
     function_begin codeOffset sz symbol + sym_size symbol div sz"

definition getBasicBlocksInFunction ::
  "InstructionContainer list \<Rightarrow> 64 word \<Rightarrow> 64 word \<Rightarrow> 64 word \<Rightarrow> SymbolTableEntry
     \<Rightarrow> error + BasicBlockDescriptor list" where
  "getBasicBlocksInFunction instructions codeOffset sz dflt symbol =
     (let b = function_begin codeOffset sz symbol;
          e = function_end codeOffset sz symbol
      in case collectTargets instructions e b {} of
           Inl err \<Rightarrow> Inl err
         | Inr targets \<Rightarrow>
             (case splitBlocks instructions targets sz dflt e b
                     \<lparr>bb_name = ''BB_0'', bb_begin = b, bb_end = dflt\<rparr> [] of
                Inl err \<Rightarrow> Inl err
              | Inr (block, blocks) \<Rightarrow>
                  Inr (if bb_begin block \<noteq> e then blocks @ [block\<lparr>bb_end := e\<rparr>]
                       else blocks)))"

text \<open>
  A vector of descriptors is a contiguous partition of \<open>[b, e)\<close> when the first one
  begins at \<open>b\<close>, each one begins where the one before it ends, none ends before it
  begins, and the last one ends at \<open>e\<close>; the empty vector partitions the empty range.
\<close>

fun contiguous :: "64 word \<Rightarrow> BasicBlockDescriptor list \<Rightarrow> 64 word \<Rightarrow> bool" where
  "contiguous b [] e = (b = e)"
| "contiguous b (d # ds) e =
     (bb_begin d = b \<and> bb_begin d \<le> bb_end d \<and> contiguous (bb_end d) ds e)"

text \<open>An instruction stream without branch-specific operands, for concrete runs.\<close>

definition plain :: "Opcode \<Rightarrow> 64 word \<Rightarrow> InstructionContainer" where
  "plain oc t = \<lparr>opcode = oc, target_mode = Immediate, target_uint = t\<rparr>"

section \<open>HostReflection: the handler enumeration\<close>

text \<open>
  \<^verbatim>\<open>
  typedef unsigned int HandlerId;
  enum MessageHandler
  {
      OpenFileMessageHandler,
      TeardownFileMessageHandler,
      FileWriteMessageHandler,
      FileReadMessageHandler,
      InvalidMessageHandler = -1
  };
  \<close>
  The declaration is kept as the list of its enumerators, each with its initialiser
  when it has one. \<open>enum_values\<close> is the numbering rule of C++: an enumerator without
  initialiser is one more than the enumerator before it, and the first one is zero.
\<close>

datatype MessageHandler =
  OpenFileMessageHandler
| TeardownFileMessageHandler
| FileWriteMessageHandler
| FileReadMessageHandler
| InvalidMessageHandler

definition MessageHandler_enumerators :: "(MessageHandler \<times> int option) list" where
  "MessageHandler_enumerators =
     [(OpenFileMessageHandler, None),
      (TeardownFileMessageHandler, None),
      (FileWriteMessageHandler, None),
      (FileReadMessageHandler, None),
      (InvalidMessageHandler, Some (- 1))]"

fun enum_values :: "int \<Rightarrow> ('a \<times> int option) list \<Rightarrow> ('a \<times> int) list" where
  "enum_values nxt [] = []"
| "enum_values nxt ((name, None) # es) = (name, nxt) # enum_values (nxt + 1) es"
| "enum_values nxt ((name, Some v) # es) = (name, v) # enum_values (v + 1) es"

definition MessageHandler_value :: "MessageHandler \<Rightarrow> int option" where
  "MessageHandler_value h = map_of (enum_values 0 MessageHandler_enumerators) h"

text \<open>The value of an enumerator converted to \<open>HandlerId\<close>, an \<open>unsigned int\<close>.\<close>

definition HandlerId_of :: "MessageHandler \<Rightarrow> 32 word option" where
  "HandlerId_of h = map_option word_of_int (MessageHandler_value h)"

section \<open>File: the message classes\<close>

text \<open>
  The class declarations of \<open>File.h\<close>, as data: for each message class its base
  classes and the member functions it declares, with their \<open>virtual\<close> and \<open>const\<close>
  qualifiers. \<open>HostReflection::Message\<close> declares three pure virtual functions,
  \<open>payload() const\<close>, \<open>payloadSize() const\<close> and \<open>handler() const\<close>.
\<close>

record method_decl =
  m_name :: string
  m_virtual :: bool
  m_const :: bool

record class_decl =
  c_bases :: "string list"
  c_methods :: "method_decl list"

definition Message_interface :: "method_decl list" where
  "Message_interface =
     [\<lparr>m_name = ''payload'', m_virtual = True, m_const = True\<rparr>,
      \<lparr>m_name = ''payloadSize'', m_virtual = True, m_const = True\<rparr>,
      \<lparr>m_name = ''handler'', m_virtual = True, m_const = True\<rparr>]"

text \<open>
  The three member functions every message class of \<open>File.h\<close> declares:
  \<open>virtual void* payload()\<close>, \<open>virtual size_t payloadSize() const\<close> and
  \<open>virtual HostReflection::HandlerId handler() const\<close>.
\<close>

definition message_methods :: "method_decl list" where
  "message_methods =
     [\<lparr>m_name = ''payload'', m_virtual = True, m_const = False\<rparr>,
      \<lparr>m_name = ''payloadSize'', m_virtual = True, m_const = True\<rparr>,
      \<lparr>m_name = ''handler'', m_virtual = True, m_const = True\<rparr>]"

datatype FileMessage =
  OpenMessage | OpenReply | DeleteMessage | TeardownMessage | WriteMessage | ReadMessage

fun File_message_class :: "FileMessage \<Rightarrow> class_decl" where
  "File_message_class OpenMessage =
     \<lparr>c_bases = [''HostReflection::Message''], c_methods = message_methods\<rparr>"
| "File_message_class OpenReply =
     \<lparr>c_bases = [''HostReflection::Message''],
      c_methods = [\<lparr>m_name = ''handle'', m_virtual = False, m_const = True\<rparr>,
                   \<lparr>m_name = ''size'', m_virtual = False, m_const = True\<rparr>] @ message_methods\<rparr>"
| "File_message_class DeleteMessage = \<lparr>c_bases = [], c_methods = message_methods\<rparr>"
| "File_message_class TeardownMessage = \<lparr>c_bases = [], c_methods = message_methods\<rparr>"
| "File_message_class WriteMessage = \<lparr>c_bases = [], c_methods = message_methods\<rparr>"
| "File_message_class ReadMessage = \<lparr>c_bases = [], c_methods = message_methods\<rparr>"

text \<open>
  A class conforms to the \<open>Message\<close> interface when it derives from it and declares
  each of the interface's operations by name.
\<close>

definition derives_from_Message :: "class_decl \<Rightarrow> bool" where
  "derives_from_Message c = (''HostReflection::Message'' \<in> set (c_bases c))"

definition declares_operations :: "class_decl \<Rightarrow> bool" where
  "declares_operations c = (set (map m_name Message_interface) \<subseteq> set (map m_name (c_methods c)))"

definition conforms_to_Message :: "class_decl \<Rightarrow> bool" where
  "conforms_to_Message c = (derives_from_Message c \<and> declares_operations c)"

text \<open>
  A member function overrides a virtual function of a base class only when its
  \<open>const\<close> qualifier matches as well as its name: a class overrides the operations of
  the interface when it declares each of them with the interface's qualifier.
\<close>

definition overrides_operations :: "class_decl \<Rightarrow> bool" where
  "overrides_operations c =
     (set (map (\<lambda>m. (m_name m, m_const m)) Message_interface)
        \<subseteq> set (map (\<lambda>m. (m_name m, m_const m)) (c_methods c)))"

section \<open>HostReflection::Queue\<close>

text \<open>
  \<^verbatim>\<open>
  class Queue
  {
  public:
      Queue(char* data, size_t size);
      bool push(const void* data, size_t size);
      bool pull(void* data, size_t size);
      bool peek();
      size_t size() const;
  private:
      char*  _begin;  char*  _end;  char*  _head;  char*  _tail;
      size_t _mutex;
      size_t _capacity() const;
      size_t _used() const;
      ...
  };
  \<close>
  The state is the one the class declares: the byte region \<open>[_begin, _end)\<close>, the two
  cursors and the mutex word. The class has no field that counts bytes: \<open>size()\<close> and
  \<open>_used()\<close> are \<open>const\<close> member functions, so what they return is determined by
  the cursors and the region.
\<close>

record Queue =
  q_data :: "byte list"
  q_head :: nat
  q_tail :: nat
  q_mutex :: size_t

text \<open>
  The bodies of the constructor, \<open>_capacity\<close>, \<open>_used\<close>, \<open>size\<close>, \<open>push\<close> and
  \<open>pull\<close> are in HostReflection.cpp, which is not among the sources at hand. Each
  definition below follows the specification's description of the operation, over the
  state the class declares. Both \<open>push\<close> and \<open>pull\<close> run under the mutex; a
  sequential run finds it free and leaves it free, so the mutex word is left as found.
\<close>


text \<open>
  Modelled from the spec: \<open>_capacity()\<close> is missing. The queue is a fixed-capacity byte
  region \<open>[begin, end)\<close>: its capacity is the size of the region.
\<close>

definition capacity :: "Queue \<Rightarrow> nat" where
  "capacity q = length (q_data q)"

text \<open>
  Modelled from the spec: how the cursors are advanced and wrapped is in the missing
  bodies. The spec asks for \<open>0 \<le> used \<le> capacity\<close>, with a push that exactly fills the
  free space succeeding, and for cursors that wrap modulo the capacity. A full queue and
  an empty one have their cursors at the same byte of the region, so a cursor carries
  more than that byte's position: \<open>q_head\<close> and \<open>q_tail\<close> are the distances the cursors
  have travelled from \<open>_begin\<close>, and the byte of the region a cursor points at is that
  distance modulo the capacity.
\<close>

definition head_pos :: "Queue \<Rightarrow> nat" where
  "head_pos q = q_head q mod capacity q"

definition tail_pos :: "Queue \<Rightarrow> nat" where
  "tail_pos q = q_tail q mod capacity q"

text \<open>
  Modelled from the spec: \<open>_used()\<close> is missing. The bytes in use are those enqueued and
  not yet pulled: the distance from \<open>head\<close> to \<open>tail\<close>.
\<close>

definition used :: "Queue \<Rightarrow> nat" where
  "used q = q_tail q - q_head q"


text \<open>
  Modelled from the spec: the copy loops of \<open>push\<close> and \<open>pull\<close> are missing. Bytes are
  copied contiguously with wraparound: the position after the last byte of the region is
  its first byte.
\<close>

fun write_wrap :: "byte list \<Rightarrow> nat \<Rightarrow> byte list \<Rightarrow> byte list" where
  "write_wrap buf pos [] = buf"
| "write_wrap buf pos (b # bs) = write_wrap (buf[pos := b]) ((pos + 1) mod length buf) bs"

fun read_wrap :: "byte list \<Rightarrow> nat \<Rightarrow> nat \<Rightarrow> byte list" where
  "read_wrap buf pos 0 = []"
| "read_wrap buf pos (Suc n) = buf ! pos # read_wrap buf ((pos + 1) mod length buf) n"

text \<open>
  Modelled from the spec: \<open>push(data, size)\<close> is missing. It fails without mutating the
  buffer if \<open>size\<close> exceeds the free space (capacity minus used bytes); on success it
  copies the bytes at \<open>tail\<close> with wraparound and advances \<open>tail\<close>.
\<close>

definition push :: "Queue \<Rightarrow> byte list \<Rightarrow> bool \<times> Queue" where
  "push q bytes =
     (if capacity q - used q < length bytes then (False, q)
      else (True, q\<lparr>q_data := write_wrap (q_data q) (tail_pos q) bytes,
                     q_tail := q_tail q + length bytes\<rparr>))"

text \<open>
  Modelled from the spec: \<open>pull(data, size)\<close> is missing. It fails without mutating the
  buffer if fewer than \<open>size\<close> bytes are enqueued; on success it copies \<open>size\<close> bytes
  from \<open>head\<close> with wraparound to the caller's buffer and advances \<open>head\<close>. The result
  is the flag, the bytes copied to the caller's buffer, and the queue.
\<close>

definition pull :: "Queue \<Rightarrow> nat \<Rightarrow> bool \<times> byte list \<times> Queue" where
  "pull q n =
     (if used q < n then (False, [], q)
      else (True, read_wrap (q_data q) (head_pos q) n, q\<lparr>q_head := q_head q + n\<rparr>))"

text \<open>
  The invariant of the spec, \<open>0 \<le> used \<le> capacity\<close>: \<open>tail\<close> is not behind \<open>head\<close>
  and at most the capacity ahead of it.
\<close>

definition wf_queue :: "Queue \<Rightarrow> bool" where
  "wf_queue q = (q_head q \<le> q_tail q \<and> q_tail q - q_head q \<le> capacity q)"

text \<open>The bytes enqueued, oldest first: what is in the region from \<open>head\<close> up to \<open>tail\<close>.\<close>

definition contents :: "Queue \<Rightarrow> byte list" where
  "contents q = read_wrap (q_data q) (head_pos q) (used q)"

text \<open>
  A sequence of operations that all succeed: \<open>run\<close> is \<open>None\<close> as soon as one of
  them reports failure. \<open>pushed\<close> and \<open>pulled\<close> are the byte totals of the sequence,
  \<open>pushed_bytes\<close> the bytes of its pushes in order.
\<close>

datatype queue_op = Push "byte list" | Pull nat


fun pushed :: "queue_op list \<Rightarrow> nat" where
  "pushed [] = 0"
| "pushed (Push bytes # ops) = length bytes + pushed ops"
| "pushed (Pull n # ops) = pushed ops"


fun pushed_bytes :: "queue_op list \<Rightarrow> byte list" where
  "pushed_bytes [] = []"
| "pushed_bytes (Push bytes # ops) = bytes @ pushed_bytes ops"
| "pushed_bytes (Pull n # ops) = pushed_bytes ops"

section \<open>File: the cursors\<close>

text \<open>
  \<^verbatim>\<open>
  class File
  {
  public:
      size_t tellg() const;
      size_t tellp() const;
      void seekg(size_t p);
      void seekp(size_t p);
      ...
  private:
      typedef unsigned int Handle;
      Handle _file;
      size_t _size;
      size_t _put;
      size_t _get;
  };
  \<close>
\<close>

record File =
  f_file :: "32 word"
  f_size :: size_t
  f_put :: size_t
  f_get :: size_t

text \<open>
  The bodies of the four cursor operations are in File.cpp, which is not among the
  sources at hand. Each operation takes the file and the queue onto which a round trip
  would push its request, and returns both.
\<close>

text \<open>
  Modelled from the spec: \<open>File::tellg\<close> is missing. It reads the local get cursor and
  makes no round trip.
\<close>

definition tellg :: "File \<Rightarrow> Queue \<Rightarrow> size_t \<times> File \<times> Queue" where
  "tellg f q = (f_get f, f, q)"

text \<open>
  Modelled from the spec: \<open>File::tellp\<close> is missing. It reads the local put cursor and
  makes no round trip.
\<close>

definition tellp :: "File \<Rightarrow> Queue \<Rightarrow> size_t \<times> File \<times> Queue" where
  "tellp f q = (f_put f, f, q)"

text \<open>
  Modelled from the spec: \<open>File::seekg\<close> is missing. It sets the local get cursor and
  makes no round trip.
\<close>

definition seekg :: "size_t \<Rightarrow> File \<Rightarrow> Queue \<Rightarrow> File \<times> Queue" where
  "seekg p f q = (f\<lparr>f_get := p\<rparr>, q)"

text \<open>
  Modelled from the spec: \<open>File::seekp\<close> is missing. It sets the local put cursor and
  makes no round trip.
\<close>

definition seekp :: "size_t \<Rightarrow> File \<Rightarrow> Queue \<Rightarrow> File \<times> Queue" where
  "seekp p f q = (f\<lparr>f_put := p\<rparr>, q)"

section \<open>Properties of \<open>align\<close>\<close>

lemma round_up_eq:
  assumes "(0::nat) < L"
  shows "A + (L - A mod L) = (A div L + 1) * L"
proof -
  define q r where "q = A div L" and "r = A mod L"
  have lt: "r < L" using assms by (simp add: r_def)
  have "A = q * L + r" by (simp add: q_def r_def)
  then have "A + (L - r) = (q + 1) * L" using lt by simp
  then show ?thesis by (simp add: q_def r_def)
qed

lemma round_up_least:
  assumes "(0::nat) < L" "L dvd m" "A \<le> m" "A mod L \<noteq> 0"
  shows "A + (L - A mod L) \<le> m"
proof -
  from assms(2) obtain k where k: "m = L * k" by (auto simp: dvd_def)
  have "A div L < k"
  proof (rule ccontr)
    assume "\<not> A div L < k"
    then have "k \<le> A div L" by simp
    then have "L * k \<le> L * (A div L)" by simp
    moreover have "L * (A div L) + A mod L = A" by simp
    ultimately have "L * k \<le> A" by linarith
    moreover have "L * k \<noteq> A" using assms(4) by auto
    ultimately show False using assms(3) k by simp
  qed
  then have "A div L + 1 \<le> k" by simp
  then have "(A div L + 1) * L \<le> k * L" by (rule mult_le_mono1)
  then show ?thesis using round_up_eq [OF assms(1), of A] k by (simp add: mult.commute)
qed

lemma align_nat_dvd: "0 < L \<Longrightarrow> L dvd align_nat A L"
  using round_up_eq [of L A] by (auto simp: align_nat_def mod_eq_0_iff_dvd)

lemma align_nat_ge: "A \<le> align_nat A L"
  by (simp add: align_nat_def)

lemma align_nat_least: "0 < L \<Longrightarrow> L dvd m \<Longrightarrow> A \<le> m \<Longrightarrow> align_nat A L \<le> m"
  using round_up_least [of L m A] by (auto simp: align_nat_def)

lemma unat_align_offset:
  fixes a al :: "32 word"
  assumes "al \<noteq> 0"
  shows "unat (al - a mod al) = unat al - unat a mod unat al"
proof -
  have "0 < al" using assms by (simp add: word_neq_0_conv)
  then have "a mod al < al" by (rule word_mod_less_divisor)
  then have "a mod al \<le> al" by simp
  then show ?thesis by (simp add: unat_sub unat_mod)
qed

text \<open>
  Without wrap-around \<open>align\<close> is the rounding on naturals: whenever the rounded value
  fits in 32 bits, the word returned has that value.
\<close>

lemma align_unat:
  fixes address alignment :: "32 word"
  assumes "alignment \<noteq> 0" and "align_nat (unat address) (unat alignment) < 2 ^ 32"
  shows "\<exists>r. align address alignment = Inr r
           \<and> unat r = align_nat (unat address) (unat alignment)"
proof -
  let ?A = "unat address" and ?L = "unat alignment"
  define off :: "32 word" where
    "off = (if address mod alignment = 0 then 0 else alignment - address mod alignment)"
  have off: "unat off = (if ?A mod ?L = 0 then 0 else ?L - ?A mod ?L)"
    using unat_align_offset [OF assms(1), of address]
    by (simp add: off_def unat_mod unat_eq_0 [symmetric] del: unat_eq_0)
  have "?A + unat off < 2 ^ 32" using assms(2) off by (simp add: align_nat_def)
  then have "unat (address + off) = ?A + unat off"
    by (simp add: unat_add_lem [THEN iffD1])
  then have r: "unat (address + off) = align_nat ?A ?L"
    using off by (simp add: align_nat_def)
  have "align address alignment = Inr (address + off)"
    using assms(1) by (simp add: align_def off_def Let_def)
  then show ?thesis using r by simp
qed

text \<open>
  Claim C9, as amended. For every address and every alignment other than zero such
  that some multiple of the alignment at or above the address is representable in 32
  bits, \<open>align\<close> returns the smallest multiple of the alignment that is greater than or
  equal to the address.
\<close>

theorem align_least_multiple:
  fixes address alignment :: "32 word"
  assumes "alignment \<noteq> 0"
    and "unat alignment dvd m" and "unat address \<le> m" and "m < 2 ^ 32"
  shows "\<exists>r. align address alignment = Inr r
           \<and> unat alignment dvd unat r \<and> unat address \<le> unat r
           \<and> (\<forall>k. unat alignment dvd k \<and> unat address \<le> k \<longrightarrow> unat r \<le> k)"
proof -
  let ?A = "unat address" and ?L = "unat alignment"
  have L: "0 < ?L" using assms(1) by (simp add: unat_gt_0)
  have "align_nat ?A ?L < 2 ^ 32"
    using align_nat_least [OF L assms(2,3)] assms(4) by simp
  from align_unat [OF assms(1) this] obtain r
    where r: "align address alignment = Inr r" "unat r = align_nat ?A ?L" by blast
  show ?thesis
    using r align_nat_dvd [OF L, of ?A] align_nat_ge [of ?A ?L] align_nat_least [OF L, of _ ?A]
    by auto
qed

theorem align_least_multiple_witness:
  "align 13 8 = Inr 16 \<and> (8::nat) dvd 16 \<and> (13::nat) \<le> 16 \<and> \<not> (8::nat) dvd 13
   \<and> \<not> (8::nat) dvd 14 \<and> \<not> (8::nat) dvd 15"
  using align_least_multiple [of 8 16 13] by (simp add: align_def)

text \<open>
  Claim C9, as stated, fails where the addition wraps: the address \<open>2 ^ 32 - 1\<close> is
  odd, the alignment 2 adds one to it, and the result is 0, which is smaller than
  the address.
\<close>

theorem align_wraps_counterexample:
  "align 4294967295 2 = Inr 0 \<and> \<not> unat (4294967295 :: 32 word) \<le> unat (0 :: 32 word)"
  by (simp add: align_def)

section \<open>Properties of the basic-block split\<close>

lemma word_lt_succ: "(i :: 64 word) < e \<Longrightarrow> i \<le> i + 1"
  by (metis (no_types, lifting) inc_i inc_le inc_less_eq_self_iff_eq
    linorder_le_less_linear nle_le olen_add_eqv)

lemma unat_succ_bound:
  assumes "unat (i :: 64 word) < n" "n < 2 ^ 64"
  shows "i < i + 1"
proof -
  have "unat i + unat (1 :: 64 word) < 2 ^ 64" using assms by simp
  then have "unat (i + 1) = unat i + 1" by (simp add: unat_add_lem [THEN iffD1])
  then show ?thesis by (simp add: word_less_nat_alt)
qed

lemma contiguous_snoc:
  "contiguous b ds m \<Longrightarrow> bb_begin d = m \<Longrightarrow> m \<le> bb_end d \<Longrightarrow> contiguous b (ds @ [d]) (bb_end d)"
  by (induction ds arbitrary: b) auto

lemma contiguous_hd_last:
  "contiguous b ds e \<Longrightarrow> ds \<noteq> [] \<Longrightarrow> bb_begin (hd ds) = b \<and> bb_end (last ds) = e"
  by (induction ds arbitrary: b) auto

lemma contiguous_le: "contiguous b ds e \<Longrightarrow> d \<in> set ds \<Longrightarrow> bb_begin d \<le> bb_end d"
  by (induction ds arbitrary: b) auto

lemma contiguous_chain:
  "contiguous b ds e \<Longrightarrow> Suc k < length ds \<Longrightarrow> bb_begin (ds ! Suc k) = bb_end (ds ! k)"
proof (induction ds arbitrary: b k)
  case Nil
  then show ?case by simp
next
  case (Cons d ds)
  show ?case
  proof (cases k)
    case 0
    with Cons.prems show ?thesis by (cases ds) auto
  next
    case (Suc j)
    with Cons.prems Cons.IH [of "bb_end d" j] show ?thesis by simp
  qed
qed

lemma contiguous_bounds: "contiguous b ds e \<Longrightarrow> b \<le> e"
  by (induction ds arbitrary: b) (auto intro: order_trans)

text \<open>The index ranges of the descriptors, one after the other, are the range of the function.\<close>

lemma contiguous_cover:
  "contiguous b ds e \<Longrightarrow>
     concat (map (\<lambda>d. [unat (bb_begin d) ..< unat (bb_end d)]) ds) = [unat b ..< unat e]"
proof (induction ds arbitrary: b)
  case Nil
  then show ?case by simp
next
  case (Cons d ds)
  then have 1: "bb_begin d = b" and 2: "b \<le> bb_end d" and 3: "contiguous (bb_end d) ds e"
    by auto
  have "unat b \<le> unat (bb_end d)" using 2 by (simp add: word_le_nat_alt)
  moreover have "unat (bb_end d) \<le> unat e"
    using contiguous_bounds [OF 3] by (simp add: word_le_nat_alt)
  ultimately have "[unat b ..< unat (bb_end d)] @ [unat (bb_end d) ..< unat e] = [unat b ..< unat e]"
    by (metis le_Suc_ex upt_add_eq_append)
  then show ?case using Cons.IH [OF 3] 1 by simp
qed

text \<open>
  A vector has fewer than \<open>2 ^ 64\<close> elements, so a first loop that reads only inside
  the vector and comes to its end started at or below \<open>end\<close>.
\<close>

lemma collectTargets_le:
  "collectTargets instructions e i targets = Inr targets' \<Longrightarrow> length instructions < 2 ^ 64
     \<Longrightarrow> i \<le> e"
proof (induction instructions e i targets rule: collectTargets.induct)
  case (1 instructions e i targets)
  show ?case
  proof (cases "i = e")
    case True
    then show ?thesis by simp
  next
    case False
    have inb: "\<not> length instructions \<le> unat i"
      using "1.prems"(1) False collectTargets.simps [of instructions e i targets]
      by (auto split: if_splits)
    have "i + 1 \<le> e"
    proof (cases "opcode (instructions ! unat i) = Bra")
      case True
      have imm: "target_mode (instructions ! unat i) = Immediate"
        using "1.prems"(1) False inb True collectTargets.simps [of instructions e i targets]
        by (auto simp: Let_def split: if_splits)
      have "collectTargets instructions e (i + 1)
              (insert (target_uint (instructions ! unat i)) targets) = Inr targets'"
        using "1.prems"(1) False inb True imm collectTargets.simps [of instructions e i targets]
        by (simp add: Let_def)
      then show ?thesis
        using "1.IH"(1) [OF False inb refl True imm] "1.prems"(2) by simp
    next
      case F2: False
      have "collectTargets instructions e (i + 1) targets = Inr targets'"
        using "1.prems"(1) False inb F2 collectTargets.simps [of instructions e i targets]
        by (simp add: Let_def)
      then show ?thesis
        using "1.IH"(2) [OF False inb refl F2] "1.prems"(2) by simp
    qed
    moreover have "i < i + 1"
      using inb "1.prems"(2) unat_succ_bound [of i "length instructions"] by simp
    ultimately show ?thesis by simp
  qed
qed

text \<open>
  The invariant of the second loop: the descriptors pushed so far partition the range
  from the start of the function to the start of the open descriptor, and the open
  descriptor starts at or below the loop index.
\<close>

lemma splitBlocks_contiguous:
  "splitBlocks instructions targets sz dflt e i block blocks = Inr (block', blocks')
     \<Longrightarrow> contiguous b0 blocks (bb_begin block) \<Longrightarrow> bb_begin block \<le> i \<Longrightarrow> i \<le> e
     \<Longrightarrow> contiguous b0 blocks' (bb_begin block') \<and> bb_begin block' \<le> e"
proof (induction instructions targets sz dflt e i block blocks rule: splitBlocks.induct)
  case (1 instructions targets sz dflt e i block blocks)
  note unfold = splitBlocks.simps [of instructions targets sz dflt e i block blocks]
  show ?case
  proof (cases "i = e")
    case True
    with "1.prems" unfold show ?thesis by simp
  next
    case False
    then have lt: "i < e" using "1.prems"(4) by simp
    have s1: "i + 1 \<le> e" using lt by (rule inc_le)
    have s2: "i \<le> i + 1" using lt by (rule word_lt_succ)
    have inb: "\<not> length instructions \<le> unat i"
      using "1.prems"(1) False unfold by (auto split: if_splits)
    define blockEnd where
      "blockEnd = (if i * sz \<in> targets then i
                   else if opcode (instructions ! unat i) = Bra then i + 1 else i)"
    have be: "bb_begin block \<le> blockEnd" "blockEnd \<le> i + 1"
      using "1.prems"(3) s2 by (auto simp: blockEnd_def intro: order_trans)
    show ?thesis
    proof (cases "i * sz \<in> targets \<or> opcode (instructions ! unat i) = Bra")
      case True
      define blocks1 where "blocks1 = blocks @ [block\<lparr>bb_end := blockEnd\<rparr>]"
      define block1 where
        "block1 = \<lparr>bb_name = ''BB_'' @ string_of_nat (length blocks1), bb_begin = blockEnd,
                     bb_end = dflt\<rparr>"
      have call: "splitBlocks instructions targets sz dflt e (i + 1) block1 blocks1
                    = Inr (block', blocks')"
        using "1.prems"(1) False inb True unfold
        by (simp add: Let_def blockEnd_def blocks1_def block1_def)
      have c: "contiguous b0 blocks1 (bb_begin block1)"
        using contiguous_snoc [OF "1.prems"(2), of "block\<lparr>bb_end := blockEnd\<rparr>"] be(1)
        by (simp add: blocks1_def block1_def)
      have "bb_begin block1 \<le> i + 1" using be(2) by (simp add: block1_def)
      with "1.IH"(1) [OF False inb refl refl refl refl True refl] call c s1
      show ?thesis by (simp add: blockEnd_def blocks1_def block1_def)
    next
      case F2: False
      have call: "splitBlocks instructions targets sz dflt e (i + 1) block blocks
                    = Inr (block', blocks')"
        using "1.prems"(1) False inb F2 unfold by (simp add: Let_def)
      have "bb_begin block \<le> i + 1" using "1.prems"(3) s2 by (rule order_trans)
      with "1.IH"(2) [OF False inb refl refl refl refl F2] call "1.prems"(2) s1
      show ?thesis by simp
    qed
  qed
qed

lemma getBasicBlocksInFunction_contiguous:
  assumes "getBasicBlocksInFunction instructions codeOffset sz dflt symbol = Inr blocks"
    and "length instructions < 2 ^ 64"
  shows "contiguous (function_begin codeOffset sz symbol) blocks
           (function_end codeOffset sz symbol)"
    and "blocks = [] \<longleftrightarrow> function_begin codeOffset sz symbol = function_end codeOffset sz symbol"
proof -
  let ?b = "function_begin codeOffset sz symbol" and ?e = "function_end codeOffset sz symbol"
  let ?block = "\<lparr>bb_name = ''BB_0'', bb_begin = ?b, bb_end = dflt\<rparr>"
  from assms(1) obtain targets where t: "collectTargets instructions ?e ?b {} = Inr targets"
    by (auto simp: getBasicBlocksInFunction_def Let_def split: sum.splits)
  from assms(1) t obtain block' blocks' where
    s: "splitBlocks instructions targets sz dflt ?e ?b ?block [] = Inr (block', blocks')"
    and r: "blocks = (if bb_begin block' \<noteq> ?e then blocks' @ [block'\<lparr>bb_end := ?e\<rparr>] else blocks')"
    by (auto simp: getBasicBlocksInFunction_def Let_def split: sum.splits prod.splits)
  have le: "?b \<le> ?e" by (rule collectTargets_le [OF t assms(2)])
  have inv: "contiguous ?b blocks' (bb_begin block')" "bb_begin block' \<le> ?e"
    using splitBlocks_contiguous [OF s, of ?b] le by simp_all
  show c: "contiguous ?b blocks ?e"
  proof (cases "bb_begin block' = ?e")
    case True
    then show ?thesis using inv(1) r by simp
  next
    case False
    then show ?thesis
      using contiguous_snoc [OF inv(1), of "block'\<lparr>bb_end := ?e\<rparr>"] inv(2) r by simp
  qed
  show "blocks = [] \<longleftrightarrow> ?b = ?e"
  proof
    assume "blocks = []"
    then show "?b = ?e" using c by simp
  next
    assume eq: "?b = ?e"
    then have "splitBlocks instructions targets sz dflt ?e ?b ?block [] = Inr (?block, [])"
      by (simp add: splitBlocks.simps)
    with s have "block' = ?block \<and> blocks' = []" by simp
    then have "bb_begin block' = ?e" "blocks' = []" using eq by simp_all
    then show "blocks = []" using r by simp
  qed
qed

text \<open>
  Claim C10. Whenever \<open>_getBasicBlocksInFunction\<close> returns a vector for a function
  symbol with instruction indices \<open>begin\<close> and \<open>end\<close>, the vector is a contiguous
  partition of \<open>[begin, end)\<close>: the first descriptor begins at \<open>begin\<close>, each
  subsequent descriptor begins exactly where the previous one ends, every descriptor
  has its begin at or below its end, and the last descriptor ends at \<open>end\<close>. The vector
  is empty exactly when the range is, and its index ranges in order make up the range.
\<close>

theorem getBasicBlocksInFunction_partition:
  assumes "getBasicBlocksInFunction instructions codeOffset sz dflt symbol = Inr blocks"
    and "length instructions < 2 ^ 64"
  shows "(blocks = [] \<longleftrightarrow> function_begin codeOffset sz symbol = function_end codeOffset sz symbol)
       \<and> (blocks \<noteq> [] \<longrightarrow> bb_begin (hd blocks) = function_begin codeOffset sz symbol
                          \<and> bb_end (last blocks) = function_end codeOffset sz symbol)
       \<and> (\<forall>k. Suc k < length blocks \<longrightarrow> bb_begin (blocks ! Suc k) = bb_end (blocks ! k))
       \<and> (\<forall>d \<in> set blocks. bb_begin d \<le> bb_end d)
       \<and> concat (map (\<lambda>d. [unat (bb_begin d) ..< unat (bb_end d)]) blocks)
           = [unat (function_begin codeOffset sz symbol) ..< unat (function_end codeOffset sz symbol)]"
  using getBasicBlocksInFunction_contiguous [OF assms]
    contiguous_hd_last contiguous_chain contiguous_le contiguous_cover
  by blast

theorem getBasicBlocksInFunction_partition_witness:
  "getBasicBlocksInFunction
     [plain (OtherOpcode 0) 0, plain Bra 32, plain (OtherOpcode 0) 0, plain (OtherOpcode 0) 0,
      plain (OtherOpcode 0) 0, plain Bra 32]
     0 16 0 \<lparr>sym_offset = 0, sym_size = 96\<rparr>
   = Inr [\<lparr>bb_name = ''BB_0'', bb_begin = 0, bb_end = 2\<rparr>,
          \<lparr>bb_name = ''BB_1'', bb_begin = 2, bb_end = 2\<rparr>,
          \<lparr>bb_name = ''BB_2'', bb_begin = 2, bb_end = 6\<rparr>]
   \<and> concat (map (\<lambda>d. [unat (bb_begin d) ..< unat (bb_end d)])
        [\<lparr>bb_name = ''BB_0'', bb_begin = 0, bb_end = 2\<rparr>,
         \<lparr>bb_name = ''BB_1'', bb_begin = 2, bb_end = 2\<rparr>,
         \<lparr>bb_name = ''BB_2'', bb_begin = 2, bb_end = 6\<rparr>])
       = [unat (function_begin 0 16 \<lparr>sym_offset = 0, sym_size = 96\<rparr>)
            ..< unat (function_end 0 16 \<lparr>sym_offset = 0, sym_size = 96\<rparr>)]"
proof -
  let ?ins = "[plain (OtherOpcode 0) 0, plain Bra 32, plain (OtherOpcode 0) 0,
               plain (OtherOpcode 0) 0, plain (OtherOpcode 0) 0, plain Bra 32]"
  have r: "getBasicBlocksInFunction ?ins 0 16 0 \<lparr>sym_offset = 0, sym_size = 96\<rparr>
             = Inr [\<lparr>bb_name = ''BB_0'', bb_begin = 0, bb_end = 2\<rparr>,
                    \<lparr>bb_name = ''BB_1'', bb_begin = 2, bb_end = 2\<rparr>,
                    \<lparr>bb_name = ''BB_2'', bb_begin = 2, bb_end = 6\<rparr>]"
    by code_simp
  have l: "length ?ins < 2 ^ 64" by simp
  show ?thesis using r getBasicBlocksInFunction_partition [OF r l] by simp
qed

text \<open>
  The split returns a vector whenever the range of the function lies inside the
  instruction vector and every branch has an immediate target.
\<close>

lemma collectTargets_returns:
  "i \<le> e \<Longrightarrow> unat e \<le> length instructions
     \<Longrightarrow> \<forall>k < length instructions. opcode (instructions ! k) = Bra
            \<longrightarrow> target_mode (instructions ! k) = Immediate
     \<Longrightarrow> \<exists>t. collectTargets instructions e i targets = Inr t"
proof (induction instructions e i targets rule: collectTargets.induct)
  case (1 instructions e i targets)
  note unfold = collectTargets.simps [of instructions e i targets]
  show ?case
  proof (cases "i = e")
    case True
    then show ?thesis using unfold by simp
  next
    case False
    then have lt: "i < e" using "1.prems"(1) by simp
    have ui: "unat i < unat e" using lt by (simp add: word_less_nat_alt)
    have inb: "\<not> length instructions \<le> unat i" using ui "1.prems"(2) by simp
    have s1: "i + 1 \<le> e" using lt by (rule inc_le)
    show ?thesis
    proof (cases "opcode (instructions ! unat i) = Bra")
      case True
      have imm: "target_mode (instructions ! unat i) = Immediate"
        using "1.prems"(3) inb True by simp
      have "\<exists>t. collectTargets instructions e (i + 1)
                  (insert (target_uint (instructions ! unat i)) targets) = Inr t"
        by (rule "1.IH"(1) [OF False inb refl True imm s1 "1.prems"(2,3)])
      then show ?thesis using unfold False inb True imm by (simp add: Let_def)
    next
      case F2: False
      have "\<exists>t. collectTargets instructions e (i + 1) targets = Inr t"
        by (rule "1.IH"(2) [OF False inb refl F2 s1 "1.prems"(2,3)])
      then show ?thesis using unfold False inb F2 by (simp add: Let_def)
    qed
  qed
qed

lemma splitBlocks_returns:
  "i \<le> e \<Longrightarrow> unat e \<le> length instructions
     \<Longrightarrow> \<exists>r. splitBlocks instructions targets sz dflt e i block blocks = Inr r"
proof (induction instructions targets sz dflt e i block blocks rule: splitBlocks.induct)
  case (1 instructions targets sz dflt e i block blocks)
  note unfold = splitBlocks.simps [of instructions targets sz dflt e i block blocks]
  show ?case
  proof (cases "i = e")
    case True
    then show ?thesis using unfold by simp
  next
    case False
    then have lt: "i < e" using "1.prems"(1) by simp
    have ui: "unat i < unat e" using lt by (simp add: word_less_nat_alt)
    have inb: "\<not> length instructions \<le> unat i" using ui "1.prems"(2) by simp
    have s1: "i + 1 \<le> e" using lt by (rule inc_le)
    show ?thesis
    proof (cases "i * sz \<in> targets \<or> opcode (instructions ! unat i) = Bra")
      case True
      have "\<exists>r. splitBlocks instructions targets sz dflt e (i + 1)
              \<lparr>bb_name = ''BB_'' @ string_of_nat (length (blocks @ [block\<lparr>bb_end :=
                   (if i * sz \<in> targets then i
                    else if opcode (instructions ! unat i) = Bra then i + 1 else i)\<rparr>])),
               bb_begin = (if i * sz \<in> targets then i
                           else if opcode (instructions ! unat i) = Bra then i + 1 else i),
               bb_end = dflt\<rparr>
              (blocks @ [block\<lparr>bb_end :=
                   (if i * sz \<in> targets then i
                    else if opcode (instructions ! unat i) = Bra then i + 1 else i)\<rparr>]) = Inr r"
        by (rule "1.IH"(1) [OF False inb refl refl refl refl True refl s1 "1.prems"(2)])
      then show ?thesis using unfold False inb True by (simp add: Let_def)
    next
      case F2: False
      have "\<exists>r. splitBlocks instructions targets sz dflt e (i + 1) block blocks = Inr r"
        by (rule "1.IH"(2) [OF False inb refl refl refl refl F2 s1 "1.prems"(2)])
      then show ?thesis using unfold False inb F2 by (simp add: Let_def)
    qed
  qed
qed

lemma getBasicBlocksInFunction_returns:
  assumes "function_begin codeOffset sz symbol \<le> function_end codeOffset sz symbol"
    and "unat (function_end codeOffset sz symbol) \<le> length instructions"
    and "\<forall>k < length instructions. opcode (instructions ! k) = Bra
            \<longrightarrow> target_mode (instructions ! k) = Immediate"
  shows "\<exists>blocks. getBasicBlocksInFunction instructions codeOffset sz dflt symbol = Inr blocks"
proof -
  let ?b = "function_begin codeOffset sz symbol" and ?e = "function_end codeOffset sz symbol"
  have "\<exists>t. collectTargets instructions ?e ?b {} = Inr t"
    by (rule collectTargets_returns [OF assms])
  then obtain t where t: "collectTargets instructions ?e ?b {} = Inr t" ..
  obtain r where r: "splitBlocks instructions t sz dflt ?e ?b
      \<lparr>bb_name = ''BB_0'', bb_begin = ?b, bb_end = dflt\<rparr> [] = Inr r"
    using splitBlocks_returns [OF assms(1,2)] by blast
  show ?thesis
    using t r by (cases r) (simp add: getBasicBlocksInFunction_def Let_def)
qed

section \<open>The handler enumeration\<close>

text \<open>
  Claim C6. The handler enumeration assigns \<open>OpenFile = 0\<close>, \<open>TeardownFile = 1\<close>,
  \<open>FileWrite = 2\<close>, \<open>FileRead = 3\<close> and \<open>Invalid = -1\<close>. As a \<open>HandlerId\<close>, an
  \<open>unsigned int\<close>, the last one is the word \<open>-1\<close>, that is \<open>2 ^ 32 - 1\<close>.
\<close>

theorem MessageHandler_values:
  "MessageHandler_value OpenFileMessageHandler = Some 0
   \<and> MessageHandler_value TeardownFileMessageHandler = Some 1
   \<and> MessageHandler_value FileWriteMessageHandler = Some 2
   \<and> MessageHandler_value FileReadMessageHandler = Some 3
   \<and> MessageHandler_value InvalidMessageHandler = Some (- 1)
   \<and> HandlerId_of OpenFileMessageHandler = Some 0
   \<and> HandlerId_of TeardownFileMessageHandler = Some 1
   \<and> HandlerId_of FileWriteMessageHandler = Some 2
   \<and> HandlerId_of FileReadMessageHandler = Some 3
   \<and> HandlerId_of InvalidMessageHandler = Some 4294967295"
  by (simp add: MessageHandler_value_def HandlerId_of_def MessageHandler_enumerators_def)

section \<open>The message classes of File\<close>

text \<open>
  Claim C5 says that each of the six message classes of \<open>File\<close> conforms to the
  \<open>HostReflection::Message\<close> interface. All six declare the three operations, but only
  \<open>OpenMessage\<close> and \<open>OpenReply\<close> derive from the interface: \<open>DeleteMessage\<close>,
  \<open>TeardownMessage\<close>, \<open>WriteMessage\<close> and \<open>ReadMessage\<close> have no base class. In all
  six, \<open>payload()\<close> is declared without \<open>const\<close>, so none overrides the interface's
  \<open>payload() const\<close>.
\<close>

theorem File_message_conformance:
  "map (\<lambda>m. conforms_to_Message (File_message_class m))
     [OpenMessage, OpenReply, DeleteMessage, TeardownMessage, WriteMessage, ReadMessage]
     = [True, True, False, False, False, False]
   \<and> map (\<lambda>m. declares_operations (File_message_class m))
     [OpenMessage, OpenReply, DeleteMessage, TeardownMessage, WriteMessage, ReadMessage]
     = [True, True, True, True, True, True]
   \<and> c_bases (File_message_class DeleteMessage) = []
   \<and> map (\<lambda>m. overrides_operations (File_message_class m))
     [OpenMessage, OpenReply, DeleteMessage, TeardownMessage, WriteMessage, ReadMessage]
     = [False, False, False, False, False, False]"
  by (simp add: conforms_to_Message_def derives_from_Message_def declares_operations_def
      overrides_operations_def Message_interface_def message_methods_def)

section \<open>Properties of the queue\<close>

lemma length_write_wrap [simp]: "length (write_wrap buf pos bs) = length buf"
  by (induction bs arbitrary: buf pos) auto

lemma length_read_wrap [simp]: "length (read_wrap buf pos n) = n"
  by (induction n arbitrary: pos) auto






lemma read_wrap_append:
  "pos < length buf \<Longrightarrow>
     read_wrap buf pos (m + n)
       = read_wrap buf pos m @ read_wrap buf ((pos + m) mod length buf) n"
proof (induction m arbitrary: pos)
  case 0
  then show ?case by simp
next
  case (Suc m)
  have c: "0 < length buf" using Suc.prems by (cases buf) simp_all
  have "read_wrap buf ((pos + 1) mod length buf) (m + n)
          = read_wrap buf ((pos + 1) mod length buf) m
            @ read_wrap buf (((pos + 1) mod length buf + m) mod length buf) n"
    using c by (intro Suc.IH) simp
  moreover have "((pos + 1) mod length buf + m) mod length buf = (pos + Suc m) mod length buf"
    by (simp add: mod_simps)
  ultimately show ?case by simp
qed



lemma length_contents [simp]: "length (contents q) = used q"
  by (simp add: contents_def)


lemma wf_pull:
  assumes "wf_queue q" "pull q n = (True, bs, q')"
  shows "wf_queue q'" "capacity q' = capacity q" "q_tail q' = q_tail q"
    "q_head q' = q_head q + n" "used q' = used q - n" "n \<le> used q"
  using assms by (auto simp: pull_def wf_queue_def capacity_def used_def split: if_splits)




text \<open>A successful pull returns the oldest bytes and leaves the rest enqueued.\<close>

lemma contents_pull:
  assumes "wf_queue q" "pull q n = (True, bs, q')"
  shows "bs = take n (contents q)" "contents q' = drop n (contents q)"
proof -
  let ?c = "capacity q"
  have le: "n \<le> used q" by (rule wf_pull(6) [OF assms])
  have bs: "bs = read_wrap (q_data q) (head_pos q) n" and d: "q_data q' = q_data q"
    using assms(2) by (auto simp: pull_def split: if_splits)
  have both: "bs = take n (contents q) \<and> contents q' = drop n (contents q)"
  proof (cases "used q = 0")
    case True
    then show ?thesis
      using le bs wf_pull(5) [OF assms] by (simp add: contents_def)
  next
    case False
    then have c: "0 < ?c" using assms(1) by (auto simp: wf_queue_def used_def)
    have hp: "head_pos q < length (q_data q)" using c by (simp add: head_pos_def capacity_def)
    have "contents q = read_wrap (q_data q) (head_pos q) (n + (used q - n))"
      using le by (simp add: contents_def)
    also have "\<dots> = read_wrap (q_data q) (head_pos q) n
        @ read_wrap (q_data q) ((head_pos q + n) mod length (q_data q)) (used q - n)"
      by (rule read_wrap_append [OF hp])
    also have "(head_pos q + n) mod length (q_data q) = head_pos q'"
      using wf_pull(2,4) [OF assms] by (simp add: head_pos_def capacity_def mod_simps)
    finally have "contents q = bs @ contents q'"
      using bs d wf_pull(5) [OF assms] by (simp add: contents_def)
    moreover have "length bs = n" using bs by simp
    ultimately show ?thesis by simp
  qed
  show "bs = take n (contents q)" "contents q' = drop n (contents q)" using both by simp_all
qed


lemma length_pushed_bytes [simp]: "length (pushed_bytes ops) = pushed ops"
  by (induction ops rule: pushed_bytes.induct) simp_all


text \<open>A full queue refuses every push of at least one byte.\<close>

lemma full_queue_refuses:
  "used q = capacity q \<Longrightarrow> bytes \<noteq> [] \<Longrightarrow> push q bytes = (False, q)"
  by (cases bytes) (simp_all add: push_def)



text \<open>
  Claim C3. If fewer than \<open>size\<close> bytes are enqueued, \<open>pull\<close> returns false, copies
  nothing and leaves the queue unchanged; it is a total function of the queue, with no
  loop that waits. If \<open>pull\<close> returns true, exactly \<open>size\<close> bytes have been copied to
  the caller's buffer: the bytes from \<open>head\<close> on, with wraparound, which on a queue
  whose cursors are in order and at most the capacity apart are the oldest bytes
  enqueued; the others stay enqueued.
\<close>

theorem pull_contract:
  "(used q < n \<longrightarrow> pull q n = (False, [], q))
   \<and> (fst (pull q n) \<longrightarrow>
        n \<le> used q
        \<and> length (fst (snd (pull q n))) = n
        \<and> fst (snd (pull q n)) = read_wrap (q_data q) (head_pos q) n
        \<and> q_data (snd (snd (pull q n))) = q_data q
        \<and> q_tail (snd (snd (pull q n))) = q_tail q
        \<and> q_head (snd (snd (pull q n))) = q_head q + n
        \<and> head_pos (snd (snd (pull q n))) = (head_pos q + n) mod capacity q)
   \<and> (fst (pull q n) \<and> wf_queue q \<longrightarrow>
        fst (snd (pull q n)) = take n (contents q)
        \<and> contents (snd (snd (pull q n))) = drop n (contents q)
        \<and> used (snd (snd (pull q n))) = used q - n)"
proof -
  have queue: "fst (snd (pull q n)) = take n (contents q)
      \<and> contents (snd (snd (pull q n))) = drop n (contents q)
      \<and> used (snd (snd (pull q n))) = used q - n"
    if ok: "fst (pull q n)" and wf: "wf_queue q"
  proof -
    obtain bs q' where p: "pull q n = (True, bs, q')"
      using ok by (cases "pull q n") simp
    show ?thesis using p contents_pull [OF wf p] wf_pull(5) [OF wf p] by simp
  qed
  have fields: "n \<le> used q
        \<and> length (fst (snd (pull q n))) = n
        \<and> fst (snd (pull q n)) = read_wrap (q_data q) (head_pos q) n
        \<and> q_data (snd (snd (pull q n))) = q_data q
        \<and> q_tail (snd (snd (pull q n))) = q_tail q
        \<and> q_head (snd (snd (pull q n))) = q_head q + n
        \<and> head_pos (snd (snd (pull q n))) = (head_pos q + n) mod capacity q"
    if "fst (pull q n)"
    using that by (auto simp: pull_def head_pos_def capacity_def mod_simps split: if_splits)
  show ?thesis using queue fields by (auto simp: pull_def)
qed

theorem pull_contract_witness:
  "pull \<lparr>q_data = [8, 5, 6, 7], q_head = 1, q_tail = 4, q_mutex = 0\<rparr> 4
     = (False, [], \<lparr>q_data = [8, 5, 6, 7], q_head = 1, q_tail = 4, q_mutex = 0\<rparr>)
   \<and> pull \<lparr>q_data = [8, 5, 6, 7], q_head = 1, q_tail = 4, q_mutex = 0\<rparr> 2
     = (True, [5, 6], \<lparr>q_data = [8, 5, 6, 7], q_head = 3, q_tail = 4, q_mutex = 0\<rparr>)
   \<and> used \<lparr>q_data = [8, 5, 6, 7], q_head = 1, q_tail = 4, q_mutex = 0\<rparr> = 3
   \<and> contents \<lparr>q_data = [8, 5, 6, 7], q_head = 1, q_tail = 4, q_mutex = 0\<rparr> = [5, 6, 7]
   \<and> contents \<lparr>q_data = [8, 5, 6, 7], q_head = 3, q_tail = 4, q_mutex = 0\<rparr> = [7]"
proof -
  let ?q = "\<lparr>q_data = [8, 5, 6, 7], q_head = 1, q_tail = 4, q_mutex = 0\<rparr>"
  let ?q' = "\<lparr>q_data = [8, 5, 6, 7], q_head = 3, q_tail = 4, q_mutex = 0\<rparr>"
  have u: "used ?q = 3" by code_simp
  then have "used ?q < 4" by simp
  with pull_contract [of ?q 4, THEN conjunct1]
  have refused: "pull ?q 4 = (False, [], ?q)" by (rule mp)
  have p: "pull ?q 2 = (True, [5, 6], ?q')" by code_simp
  have "fst (pull ?q 2) \<and> wf_queue ?q" by code_simp
  with pull_contract [of ?q 2, THEN conjunct2, THEN conjunct2]
  have "fst (snd (pull ?q 2)) = take 2 (contents ?q)
      \<and> contents (snd (snd (pull ?q 2))) = drop 2 (contents ?q)
      \<and> used (snd (snd (pull ?q 2))) = used ?q - 2" by (rule mp)
  then have "contents ?q' = drop 2 (contents ?q)" by (simp only: p snd_conv)
  moreover have c: "contents ?q = [5, 6, 7]" by code_simp
  moreover have "drop 2 [5, 6, 7 :: byte] = [7]" by code_simp
  ultimately have "contents ?q' = [7]" by (simp only:)
  then show ?thesis using refused p u c by (simp only: simp_thms)
qed



section \<open>The cursors of File\<close>

text \<open>
  Claim C8. \<open>tellg\<close>, \<open>tellp\<close>, \<open>seekg\<close> and \<open>seekp\<close> read or write only the local
  get or put cursor: the queue is as it was (nothing has been pushed), and the
  handle, the size and the other cursor are unchanged.
\<close>

theorem cursor_operations_local:
  "tellg f q = (f_get f, f, q)
   \<and> tellp f q = (f_put f, f, q)
   \<and> snd (seekg p f q) = q
   \<and> f_get (fst (seekg p f q)) = p
   \<and> f_put (fst (seekg p f q)) = f_put f
   \<and> f_file (fst (seekg p f q)) = f_file f
   \<and> f_size (fst (seekg p f q)) = f_size f
   \<and> snd (seekp p f q) = q
   \<and> f_put (fst (seekp p f q)) = p
   \<and> f_get (fst (seekp p f q)) = f_get f
   \<and> f_file (fst (seekp p f q)) = f_file f
   \<and> f_size (fst (seekp p f q)) = f_size f"
  by (simp add: tellg_def tellp_def seekg_def seekp_def)

end
